theory Spec2Isabelle
  imports Complex_Main
begin

section \<open>Text: Python strings as lists of code points\<close>

text \<open>
  A Python \<open>str\<close> is a sequence of Unicode code points and \<open>len\<close> counts code points,
  so a string is modelled as a list of natural numbers. The model's alphabet is Basic Latin
  and the Cyrillic block up to U+045F: \<open>lower\<close> maps A-Z and U+0400..U+042F to their
  lower-case letters and leaves every other code point alone.
\<close>

type_synonym ustr = "nat list"

definition lower_cp :: "nat \<Rightarrow> nat" where
  "lower_cp c =
     (if 65 \<le> c \<and> c \<le> 90 then c + 32
      else if 1024 \<le> c \<and> c \<le> 1039 then c + 80
      else if 1040 \<le> c \<and> c \<le> 1071 then c + 32
      else c)"

definition lower :: "ustr \<Rightarrow> ustr" where
  "lower s = map lower_cp s"

definition ascii :: "string \<Rightarrow> ustr" where
  "ascii s = map of_char s"

text \<open>
  Python's white space (\<open>str.isspace\<close>, \<open>str.split\<close>, \<open>str.strip\<close> and the pattern
  \<open>\s\<close> agree on it) and the word characters of \<open>\w\<close> within the model's alphabet.
\<close>

definition is_space :: "nat \<Rightarrow> bool" where
  "is_space c = (c \<in> set [9, 10, 11, 12, 13, 28, 29, 30, 31, 32, 133, 160, 5760, 8192, 8193,
     8194, 8195, 8196, 8197, 8198, 8199, 8200, 8201, 8202, 8232, 8233, 8239, 8287, 12288])"

definition is_word :: "nat \<Rightarrow> bool" where
  "is_word c = ((48 \<le> c \<and> c \<le> 57) \<or> (65 \<le> c \<and> c \<le> 90) \<or> c = 95 \<or>
     (97 \<le> c \<and> c \<le> 122) \<or> (1024 \<le> c \<and> c \<le> 1119))"

text \<open>The maximal runs of characters of a class: \<open>re.findall("[...]+", s)\<close>, \<open>s.split()\<close>.\<close>

fun runs_acc :: "(nat \<Rightarrow> bool) \<Rightarrow> ustr \<Rightarrow> ustr \<Rightarrow> ustr list" where
  "runs_acc P cur [] = (if cur = [] then [] else [cur])"
| "runs_acc P cur (c # cs) =
     (if P c then runs_acc P (cur @ [c]) cs
      else if cur = [] then runs_acc P [] cs else cur # runs_acc P [] cs)"

definition runs :: "(nat \<Rightarrow> bool) \<Rightarrow> ustr \<Rightarrow> ustr list" where
  "runs P s = runs_acc P [] s"

definition split_ws :: "ustr \<Rightarrow> ustr list" where
  "split_ws s = runs (\<lambda>c. \<not> is_space c) s"

text \<open>
  \<open>after_prefix w s\<close> is what follows \<open>w\<close> when \<open>s\<close> starts with the literal \<open>w\<close>;
  \<open>contains w s\<close> is Python's \<open>w in s\<close>.
\<close>

fun after_prefix :: "ustr \<Rightarrow> ustr \<Rightarrow> ustr option" where
  "after_prefix [] s = Some s"
| "after_prefix (x # xs) [] = None"
| "after_prefix (x # xs) (y # ys) = (if x = y then after_prefix xs ys else None)"

fun contains :: "ustr \<Rightarrow> ustr \<Rightarrow> bool" where
  "contains w [] = (w = [])"
| "contains w (c # cs) = (after_prefix w (c # cs) \<noteq> None \<or> contains w cs)"

text \<open>
  The assertion \<open>\b\<close> between a character (\<open>prev\<close> tells whether it is a word
  character; there is none at the start of the text) and the rest \<open>s\<close> of the text: exactly
  one side is a word character.
\<close>

definition boundary :: "bool \<Rightarrow> ustr \<Rightarrow> bool" where
  "boundary prev s = (prev \<noteq> (case s of [] \<Rightarrow> False | c # cs \<Rightarrow> is_word c))"

text \<open>
  A pattern \<open>\bW\b\<close>, or \<open>\bW\<close> when \<open>closing\<close> is false, matched where the rest of the
  text is \<open>s\<close>, and searched from there on.
\<close>

definition word_here :: "ustr \<Rightarrow> bool \<Rightarrow> bool \<Rightarrow> ustr \<Rightarrow> ustr option" where
  "word_here w closing prev s =
     (if boundary prev s
      then (case after_prefix w s of
              None \<Rightarrow> None
            | Some r \<Rightarrow>
                if closing \<and> \<not> boundary (if w = [] then prev else is_word (last w)) r
                then None else Some r)
      else None)"


section \<open>difflib.SequenceMatcher(None, a, b).ratio()\<close>

text \<open>
  The spam detector and the moderator both call the standard library's
  \<open>SequenceMatcher(None, a, b).ratio()\<close>. With \<open>isjunk = None\<close> the junk set is empty and
  \<open>autojunk\<close> is on: when \<open>b\<close> has at least 200 elements, an element that occurs more than
  \<open>len(b) // 100 + 1\<close> times is "popular" and is removed from the index \<open>b2j\<close>.
\<close>

definition popular :: "ustr \<Rightarrow> nat \<Rightarrow> bool" where
  "popular b x = (200 \<le> length b \<and> length b div 100 + 1 < count_list b x)"

definition b2j :: "ustr \<Rightarrow> nat \<Rightarrow> nat list" where
  "b2j b x = (if popular b x then [] else filter (\<lambda>j. b ! j = x) [0..<length b])"

text \<open>
  \<open>j2len.get(j - 1, 0)\<close>: the dictionary is an association list; the key \<open>-1\<close> (for
  \<open>j = 0\<close>) is never present.
\<close>

definition j2lenget :: "(nat \<times> nat) list \<Rightarrow> nat \<Rightarrow> nat" where
  "j2lenget j2len j = (if j = 0 then 0 else case map_of j2len (j - 1) of None \<Rightarrow> 0 | Some v \<Rightarrow> v)"

text \<open>
  The inner loop of \<open>find_longest_match\<close> over \<open>b2j.get(a[i], [])\<close>: \<open>continue\<close> below
  \<open>blo\<close>, \<open>break\<close> from \<open>bhi\<close> on, otherwise record the run length and keep the first
  longest block.
\<close>

fun scan_row :: "(nat \<times> nat) list \<Rightarrow> nat \<Rightarrow> nat \<Rightarrow> nat \<Rightarrow> nat list
    \<Rightarrow> (nat \<times> nat) list \<times> (nat \<times> nat \<times> nat) \<Rightarrow> (nat \<times> nat) list \<times> (nat \<times> nat \<times> nat)" where
  "scan_row j2len i blo bhi [] st = st"
| "scan_row j2len i blo bhi (j # js) (newj2len, (besti, bestj, bestsize)) =
     (if j < blo then scan_row j2len i blo bhi js (newj2len, (besti, bestj, bestsize))
      else if bhi \<le> j then (newj2len, (besti, bestj, bestsize))
      else (let k = j2lenget j2len j + 1
            in scan_row j2len i blo bhi js
                 ((j, k) # newj2len,
                  if bestsize < k then (i + 1 - k, j + 1 - k, k) else (besti, bestj, bestsize))))"

fun scan_rows :: "ustr \<Rightarrow> ustr \<Rightarrow> nat \<Rightarrow> nat \<Rightarrow> nat list \<Rightarrow> (nat \<times> nat) list
    \<Rightarrow> (nat \<times> nat \<times> nat) \<Rightarrow> (nat \<times> nat \<times> nat)" where
  "scan_rows a b blo bhi [] j2len best = best"
| "scan_rows a b blo bhi (i # rows) j2len best =
     (case scan_row j2len i blo bhi (b2j b (a ! i)) ([], best) of
        (newj2len, best') \<Rightarrow> scan_rows a b blo bhi rows newj2len best')"

text \<open>
  The two extension loops for non-junk elements. The two loops for junk elements that follow
  them in the library never run, since the junk set is empty.
\<close>

function grow_left :: "ustr \<Rightarrow> ustr \<Rightarrow> nat \<Rightarrow> nat \<Rightarrow> nat \<times> nat \<times> nat \<Rightarrow> nat \<times> nat \<times> nat" where
  "grow_left a b alo blo (i, j, k) =
     (if alo < i \<and> blo < j \<and> a ! (i - 1) = b ! (j - 1)
      then grow_left a b alo blo (i - 1, j - 1, k + 1) else (i, j, k))"
  by pat_completeness auto
termination
  by (relation "measure (\<lambda>(a, b, alo, blo, i, j, k). i)") auto

declare grow_left.simps [simp del]

function grow_right :: "ustr \<Rightarrow> ustr \<Rightarrow> nat \<Rightarrow> nat \<Rightarrow> nat \<times> nat \<times> nat \<Rightarrow> nat \<times> nat \<times> nat" where
  "grow_right a b ahi bhi (i, j, k) =
     (if i + k < ahi \<and> j + k < bhi \<and> a ! (i + k) = b ! (j + k)
      then grow_right a b ahi bhi (i, j, k + 1) else (i, j, k))"
  by pat_completeness auto
termination
  by (relation "measure (\<lambda>(a, b, ahi, bhi, i, j, k). ahi - (i + k))") auto

declare grow_right.simps [simp del]

definition find_longest_match :: "ustr \<Rightarrow> ustr \<Rightarrow> nat \<Rightarrow> nat \<Rightarrow> nat \<Rightarrow> nat \<Rightarrow> nat \<times> nat \<times> nat" where
  "find_longest_match a b alo ahi blo bhi =
     grow_right a b ahi bhi
       (grow_left a b alo blo (scan_rows a b blo bhi [alo..<ahi] [] (alo, blo, 0)))"

subsection \<open>What a longest match satisfies\<close>

text \<open>
  \<open>good\<close>: the block lies in the window \<open>[alo, ahi) \<times> [blo, bhi)\<close> and its elements agree;
  an empty block sits at the window's lower corner. \<open>ent\<close>: an entry \<open>(j, k)\<close> of the
  dictionary of row \<open>i\<close> is a run of \<open>k\<close> equal elements ending at \<open>(i, j)\<close>.
\<close>

definition good :: "ustr \<Rightarrow> ustr \<Rightarrow> nat \<Rightarrow> nat \<Rightarrow> nat \<Rightarrow> nat \<Rightarrow> nat \<times> nat \<times> nat \<Rightarrow> bool" where
  "good a b alo ahi blo bhi m =
     (case m of (i, j, k) \<Rightarrow>
        alo \<le> i \<and> blo \<le> j \<and> (k = 0 \<longrightarrow> i = alo \<and> j = blo) \<and>
        (0 < k \<longrightarrow> i + k \<le> ahi \<and> j + k \<le> bhi) \<and> (\<forall>t<k. a ! (i + t) = b ! (j + t)))"

definition ent :: "ustr \<Rightarrow> ustr \<Rightarrow> nat \<Rightarrow> nat \<Rightarrow> nat \<Rightarrow> nat \<Rightarrow> nat \<times> nat \<Rightarrow> bool" where
  "ent a b alo blo bhi i e =
     (case e of (j, k) \<Rightarrow>
        0 < k \<and> alo \<le> i \<and> k \<le> i + 1 - alo \<and> k \<le> j + 1 - blo \<and> j < bhi \<and>
        (\<forall>t<k. a ! (i - t) = b ! (j - t)))"

lemma b2j_mem: "j \<in> set (b2j b x) \<Longrightarrow> b ! j = x \<and> j < length b"
  by (auto simp: b2j_def split: if_splits)

lemma j2lenget_prev:
  assumes "\<forall>e\<in>set j2len. \<exists>r. i = Suc r \<and> ent a b alo blo bhi r e"
  shows "j2lenget j2len j = 0 \<or>
         (\<exists>r. i = Suc r \<and> 0 < j \<and> ent a b alo blo bhi r (j - 1, j2lenget j2len j))"
proof (cases "j = 0")
  case True
  then show ?thesis by (simp add: j2lenget_def)
next
  case False
  show ?thesis
  proof (cases "map_of j2len (j - 1)")
    case None
    with False show ?thesis by (simp add: j2lenget_def)
  next
    case (Some v)
    then have "(j - 1, v) \<in> set j2len" by (rule map_of_SomeD)
    with assms obtain r where "i = Suc r" "ent a b alo blo bhi r (j - 1, v)" by blast
    with False Some show ?thesis by (auto simp: j2lenget_def)
  qed
qed

lemma ent_step:
  assumes prev: "k = 0 \<or> (\<exists>r. i = Suc r \<and> 0 < j \<and> ent a b alo blo bhi r (j - 1, k))"
    and eq: "a ! i = b ! j" and i: "alo \<le> i" and j: "blo \<le> j" "j < bhi"
  shows "ent a b alo blo bhi i (j, k + 1)"
proof (cases "k = 0")
  case True
  with eq i j show ?thesis by (auto simp: ent_def)
next
  case False
  with prev obtain r where r: "i = Suc r" "0 < j" "ent a b alo blo bhi r (j - 1, k)" by blast
  have run: "a ! (i - t) = b ! (j - t)" if "t < k + 1" for t
  proof (cases t)
    case 0
    with eq show ?thesis by simp
  next
    case (Suc u)
    with that have "u < k" by simp
    with r(3) have "a ! (r - u) = b ! (j - 1 - u)" by (simp add: ent_def)
    with Suc r(1) show ?thesis by simp
  qed
  from r have "k \<le> r + 1 - alo" "k \<le> j - 1 + 1 - blo" "alo \<le> r" by (simp_all add: ent_def)
  with r(1,2) j run show ?thesis by (auto simp: ent_def)
qed

lemma ent_good:
  assumes "ent a b alo blo bhi i (j, k)" "i < ahi"
  shows "good a b alo ahi blo bhi (i + 1 - k, j + 1 - k, k)"
proof -
  from assms(1) have k: "0 < k" "k \<le> i + 1 - alo" "k \<le> j + 1 - blo" "j < bhi" "alo \<le> i"
    and run: "\<forall>t<k. a ! (i - t) = b ! (j - t)" by (simp_all add: ent_def)
  have "a ! (i + 1 - k + t) = b ! (j + 1 - k + t)" if "t < k" for t
  proof -
    from that have "k - 1 - t < k" by simp
    with run have "a ! (i - (k - 1 - t)) = b ! (j - (k - 1 - t))" by blast
    moreover from that k have "i - (k - 1 - t) = i + 1 - k + t" by arith
    moreover from that k have "j - (k - 1 - t) = j + 1 - k + t" by arith
    ultimately show ?thesis by metis
  qed
  with k assms(2) show ?thesis by (auto simp: good_def)
qed

lemma scan_row_inv:
  assumes "\<forall>e\<in>set j2len. \<exists>r. i = Suc r \<and> ent a b alo blo bhi r e"
    and "\<forall>j\<in>set js. a ! i = b ! j" and "alo \<le> i" and "i < ahi"
    and "\<forall>e\<in>set acc. ent a b alo blo bhi i e" and "good a b alo ahi blo bhi best"
    and "scan_row j2len i blo bhi js (acc, best) = (acc', best')"
  shows "(\<forall>e\<in>set acc'. ent a b alo blo bhi i e) \<and> good a b alo ahi blo bhi best'"
  using assms(2,5,6,7)
proof (induction js arbitrary: acc best)
  case Nil
  then show ?case by simp
next
  case (Cons j js)
  obtain bi bj bk where best: "best = (bi, bj, bk)" by (cases best)
  show ?case
  proof (cases "j < blo")
    case True
    with Cons best show ?thesis by simp
  next
    case lo: False
    show ?thesis
    proof (cases "bhi \<le> j")
      case True
      with lo Cons best show ?thesis by simp
    next
      case False
      let ?k = "j2lenget j2len j + 1"
      let ?best = "if bk < ?k then (i + 1 - ?k, j + 1 - ?k, ?k) else (bi, bj, bk)"
      from Cons.prems(1) have eq: "a ! i = b ! j" by simp
      have e: "ent a b alo blo bhi i (j, ?k)"
        using j2lenget_prev[OF assms(1), of j] eq assms(3) lo False
        by (intro ent_step) auto
      then have g: "good a b alo ahi blo bhi ?best"
        using ent_good[OF e assms(4)] Cons.prems(3) best by simp
      from Cons.prems(4) lo False best
      have "scan_row j2len i blo bhi js ((j, ?k) # acc, ?best) = (acc', best')"
        by (cases "bk < ?k") (simp_all add: Let_def)
      moreover have "\<forall>e\<in>set ((j, ?k) # acc). ent a b alo blo bhi i e"
        using e Cons.prems(2) by simp
      moreover have "\<forall>j\<in>set js. a ! i = b ! j"
        using Cons.prems(1) by (meson list.set_intros(2))
      ultimately show ?thesis using g Cons.IH by blast
    qed
  qed
qed

lemma scan_rows_good:
  assumes "\<forall>e\<in>set j2len. \<exists>r. i0 = Suc r \<and> ent a b alo blo bhi r e"
    and "alo \<le> i0" and "good a b alo ahi blo bhi best"
  shows "good a b alo ahi blo bhi (scan_rows a b blo bhi [i0..<ahi] j2len best)"
  using assms
proof (induction "ahi - i0" arbitrary: i0 j2len best)
  case 0
  then show ?case by simp
next
  case (Suc n)
  then have lt: "i0 < ahi" by simp
  obtain acc' best' where row: "scan_row j2len i0 blo bhi (b2j b (a ! i0)) ([], best) = (acc', best')"
    by (cases "scan_row j2len i0 blo bhi (b2j b (a ! i0)) ([], best)")
  have "(\<forall>e\<in>set acc'. ent a b alo blo bhi i0 e) \<and> good a b alo ahi blo bhi best'"
    using Suc.prems lt row
    by (intro scan_row_inv[where j2len = j2len and js = "b2j b (a ! i0)" and acc = "[]" and best = best])
       (auto dest: b2j_mem)
  moreover from Suc.hyps(2) have "n = ahi - Suc i0" by simp
  ultimately have "good a b alo ahi blo bhi (scan_rows a b blo bhi [Suc i0..<ahi] acc' best')"
    using Suc.prems(2) by (intro Suc.hyps(1)) auto
  with lt row show ?case by (simp add: upt_conv_Cons)
qed

lemma grow_left_good:
  "good a b alo ahi blo bhi m \<Longrightarrow> good a b alo ahi blo bhi (grow_left a b alo blo m)"
proof (induction a b alo blo m rule: grow_left.induct)
  case (1 a b alo blo i j k)
  show ?case
  proof (cases "alo < i \<and> blo < j \<and> a ! (i - 1) = b ! (j - 1)")
    case True
    have "a ! (i - 1 + t) = b ! (j - 1 + t)" if "t < k + 1" for t
    proof (cases t)
      case 0
      with True show ?thesis by simp
    next
      case (Suc u)
      with that "1.prems" True show ?thesis by (simp add: good_def)
    qed
    with True "1.prems" have "good a b alo ahi blo bhi (i - 1, j - 1, k + 1)"
      by (auto simp: good_def)
    with True "1.IH" show ?thesis by (subst grow_left.simps) simp
  next
    case False
    with "1.prems" show ?thesis by (subst grow_left.simps) auto
  qed
qed

lemma grow_right_good:
  "good a b alo ahi blo bhi m \<Longrightarrow> good a b alo ahi blo bhi (grow_right a b ahi bhi m)"
proof (induction a b ahi bhi m rule: grow_right.induct)
  case (1 a b ahi bhi i j k)
  show ?case
  proof (cases "i + k < ahi \<and> j + k < bhi \<and> a ! (i + k) = b ! (j + k)")
    case True
    with "1.prems" have "good a b alo ahi blo bhi (i, j, k + 1)"
      by (auto simp: good_def less_Suc_eq)
    with True "1.IH" show ?thesis by (subst grow_right.simps) simp
  next
    case False
    with "1.prems" show ?thesis by (subst grow_right.simps) auto
  qed
qed

lemma find_longest_match_good:
  "good a b alo ahi blo bhi (find_longest_match a b alo ahi blo bhi)"
  unfolding find_longest_match_def
  by (intro grow_right_good grow_left_good scan_rows_good) (simp_all add: good_def)

text \<open>
  \<open>get_matching_blocks\<close> keeps a work list of windows; each window yields its longest
  block and, when they are non-empty, the windows to its left and to its right. \<open>ratio\<close>
  only adds up the sizes of the blocks, so the model adds them up along the same windows
  (the library's sorting and merging of adjacent blocks leave the sum alone).
\<close>

function matching_size :: "ustr \<Rightarrow> ustr \<Rightarrow> nat \<Rightarrow> nat \<Rightarrow> nat \<Rightarrow> nat \<Rightarrow> nat" where
  "matching_size a b alo ahi blo bhi =
     (case find_longest_match a b alo ahi blo bhi of
        (i, j, k) \<Rightarrow>
          if k = 0 then 0
          else k + (if alo < i \<and> blo < j then matching_size a b alo i blo j else 0)
                 + (if i + k < ahi \<and> j + k < bhi then matching_size a b (i + k) ahi (j + k) bhi else 0))"
  by pat_completeness auto
termination
proof (relation "measure (\<lambda>(a, b, alo, ahi, blo, bhi). ahi - alo)", goal_cases)
  case 1
  show ?case by simp
next
  case (2 a b alo ahi blo bhi i jk j k)
  then have "good a b alo ahi blo bhi (i, j, k)"
    using find_longest_match_good[of a b alo ahi blo bhi] by simp
  with 2 show ?case by (auto simp: good_def)
next
  case (3 a b alo ahi blo bhi i jk j k)
  then have "good a b alo ahi blo bhi (i, j, k)"
    using find_longest_match_good[of a b alo ahi blo bhi] by simp
  with 3 show ?case by (auto simp: good_def)
qed

declare matching_size.simps [simp del]

definition ratio :: "ustr \<Rightarrow> ustr \<Rightarrow> rat" where
  "ratio a b =
     (let matches = matching_size a b 0 (length a) 0 (length b); len = length a + length b
      in if len = 0 then 1 else 2 * of_nat matches / of_nat len)"


section \<open>Python floats\<close>







section \<open>Agent 4: the spam detector\<close>












section \<open>The heuristic analyzer\<close>










section \<open>The contextual mention tracker\<close>





definition set_add :: "'a \<Rightarrow> 'a list \<Rightarrow> 'a list" where
  "set_add x xs = (if x \<in> set xs then xs else xs @ [x])"













section \<open>The multi-level analyzer\<close>

text \<open>
  A Python number as \<open>json.loads\<close> can return it and \<open>max\<close> and \<open>>\<close> compare it: an
  \<open>int\<close> or a finite \<open>float\<close> (its exact value), or one of the floats \<open>inf\<close>,
  \<open>-inf\<close>, \<open>nan\<close>, which \<open>json.loads\<close> reads from \<open>Infinity\<close>, \<open>-Infinity\<close>,
  \<open>NaN\<close>. \<open>py_less a b\<close> is \<open>a < b\<close>, false whenever \<open>nan\<close> takes part;
  \<open>max(a, b)\<close> is \<open>b\<close> if \<open>b > a\<close> and \<open>a\<close> otherwise.
\<close>

datatype pynum = Finite rat | PosInf | NegInf | NaN


















section \<open>Agent 1: the moderator\<close>

subsection \<open>Normalisation and transliteration\<close>

text \<open>\<open>_normalize\<close>: \<open>s.lower().replace(yo, ye).replace(two spaces, one space).strip()\<close>.\<close>

definition replace_yo :: "ustr \<Rightarrow> ustr" where
  "replace_yo s = map (\<lambda>c. if c = 1105 then 1077 else c) s"

fun collapse_spaces :: "ustr \<Rightarrow> ustr" where
  "collapse_spaces (a # b # r) =
     (if a = 32 \<and> b = 32 then 32 # collapse_spaces r else a # collapse_spaces (b # r))"
| "collapse_spaces s = s"

definition strip :: "ustr \<Rightarrow> ustr" where
  "strip s = rev (dropWhile is_space (rev (dropWhile is_space s)))"

definition normalize :: "ustr \<Rightarrow> ustr" where
  "normalize s = strip (collapse_spaces (replace_yo (lower s)))"

text \<open>The character classes \<open>[a-z0-9]\<close>, \<open>[a-zA-Z]\<close>, the Cyrillic letters with yo, and the token class.\<close>

definition is_lat_digit :: "nat \<Rightarrow> bool" where
  "is_lat_digit c = ((97 \<le> c \<and> c \<le> 122) \<or> (48 \<le> c \<and> c \<le> 57))"

definition is_latin :: "nat \<Rightarrow> bool" where
  "is_latin c = ((97 \<le> c \<and> c \<le> 122) \<or> (65 \<le> c \<and> c \<le> 90))"

definition cyr_letter :: "nat \<Rightarrow> bool" where
  "cyr_letter c = ((1040 \<le> c \<and> c \<le> 1103) \<or> c = 1025 \<or> c = 1105)"

definition token_char :: "nat \<Rightarrow> bool" where
  "token_char c = (cyr_letter c \<or> is_latin c \<or> (48 \<le> c \<and> c \<le> 57) \<or> c = 45)"

definition ru_table :: "(nat \<times> string) list" where
  "ru_table =
     [(1072, ''a''), (1073, ''b''), (1074, ''v''), (1075, ''g''), (1076, ''d''), (1077, ''e''),
      (1105, ''e''), (1078, ''zh''), (1079, ''z''), (1080, ''i''), (1081, ''i''), (1082, ''k''),
      (1083, ''l''), (1084, ''m''), (1085, ''n''), (1086, ''o''), (1087, ''p''), (1088, ''r''),
      (1089, ''s''), (1090, ''t''), (1091, ''u''), (1092, ''f''), (1093, ''h''), (1094, ''c''),
      (1095, ''ch''), (1096, ''sh''), (1097, ''sh''), (1098, []), (1099, ''y''), (1100, []),
      (1101, ''e''), (1102, ''yu''), (1103, ''ya'')]"

definition ru_to_lat :: "ustr \<Rightarrow> ustr" where
  "ru_to_lat s =
     concat (map (\<lambda>ch. case map_of ru_table ch of
                          Some l \<Rightarrow> ascii l
                        | None \<Rightarrow> if is_lat_digit ch then [ch] else [])
                 (lower s))"

definition lat_table :: "(nat \<times> ustr) list" where
  "lat_table =
     [(97, [1072]), (98, [1073]), (99, [1094]), (100, [1076]), (101, [1077]), (102, [1092]),
      (103, [1075]), (104, [1093]), (105, [1080]), (106, [1081]), (107, [1082]), (108, [1083]),
      (109, [1084]), (110, [1085]), (111, [1086]), (112, [1087]), (113, [1082]), (114, [1088]),
      (115, [1089]), (116, [1090]), (117, [1091]), (118, [1074]), (119, [1074]),
      (120, [1082, 1089]), (121, [1080]), (122, [1079]), (48, [48]), (49, [49]), (50, [50]),
      (51, [51]), (52, [52]), (53, [53]), (54, [54]), (55, [55]), (56, [56]), (57, [57])]"

text \<open>
  \<open>re.sub('(ks){2,}', 'ks', res)\<close> on the Cyrillic letters k, s: \<open>skipping\<close> holds after
  a run of at least two has been replaced and while further copies are dropped.
\<close>

fun collapse_ks :: "bool \<Rightarrow> ustr \<Rightarrow> ustr" where
  "collapse_ks skipping (a # b # r) =
     (if a = 1082 \<and> b = 1089
      then (if skipping then collapse_ks True r
            else (case r of
                    c # d # r' \<Rightarrow>
                      if c = 1082 \<and> d = 1089 then a # b # collapse_ks True r
                      else a # collapse_ks False (b # r)
                  | _ \<Rightarrow> a # collapse_ks False (b # r)))
      else a # collapse_ks False (b # r))"
| "collapse_ks skipping s = s"

text \<open>
  \<open>re.sub('(.){2,}', '', res)\<close>: a character standing three or more times in a row
  is kept once; \<open>skip\<close> is the character whose further copies are being dropped.
\<close>

fun collapse_rep :: "nat option \<Rightarrow> ustr \<Rightarrow> ustr" where
  "collapse_rep skip [] = []"
| "collapse_rep skip (a # r) =
     (if skip = Some a then collapse_rep skip r
      else (case r of
              b # c # r' \<Rightarrow>
                if a = b \<and> b = c \<and> a \<noteq> 10 then a # collapse_rep (Some a) r
                else a # collapse_rep None r
            | _ \<Rightarrow> a # collapse_rep None r))"

definition lat_to_ru_approx :: "ustr \<Rightarrow> ustr" where
  "lat_to_ru_approx s =
     collapse_rep None (collapse_ks False
       (concat (map (\<lambda>ch. case map_of lat_table ch of Some r \<Rightarrow> r | None \<Rightarrow> []) (lower s))))"

subsection \<open>The registry and its loading\<close>

text \<open>
  \<open>inoagents\<close> is a Python set of normalised names, here the list of its elements in the
  order a loop meets them; \<open>pseudonyms\<close> is a dictionary from alias to name, here its items
  in insertion order.
\<close>

record moderator =
  inoagents :: "ustr list"
  pseudonyms :: "(ustr \<times> ustr) list"

definition pseudo_blacklist :: "ustr list" where
  "pseudo_blacklist =
     [[1087, 1088, 1086, 1077, 1082, 1090], [1088, 1077, 1089, 1091, 1088, 1089],
      [1082, 1086, 1084, 1072, 1085, 1076, 1072], [1080, 1079, 1076, 1072, 1085, 1080, 1077],
      [1075, 1072, 1079, 1077, 1090, 1072], [1090, 1077, 1083, 1077, 1075, 1088, 1072, 1084],
      [1082, 1072, 1085, 1072, 1083],
      [1086, 1088, 1075, 1072, 1085, 1080, 1079, 1072, 1094, 1080, 1103],
      [1087, 1083, 1072, 1090, 1092, 1086, 1088, 1084, 1072], [1092, 1086, 1085, 1076],
      [1072, 1075, 1077, 1085, 1090], [1084, 1072, 1090], [1084, 1077, 1076, 1080, 1072],
      [1088, 1072, 1076, 1080, 1086], [1089, 1072, 1081, 1090],
      [1085, 1086, 1074, 1086, 1089, 1090, 1080],
      [1086, 1090, 1082, 1088, 1099, 1090, 1099, 1093], [1074, 1072, 1078, 1085, 1099, 1093],
      [1080, 1085, 1086, 1072, 1075, 1077, 1085, 1090]]"

text \<open>\<open>d[k] = v\<close> on a dictionary kept as its items in insertion order.\<close>

fun dict_set :: "'k \<Rightarrow> 'v \<Rightarrow> ('k \<times> 'v) list \<Rightarrow> ('k \<times> 'v) list" where
  "dict_set k v [] = [(k, v)]"
| "dict_set k v ((k', v') # d) = (if k = k' then (k, v) # d else (k', v') # dict_set k v d)"

text \<open>
  The part of \<open>_load_inoagents\<close> that admits an alias, run once per registry line:
  \<open>pseudo\<close> is the alias found on the line (\<open>None\<close> when there is none) and
  \<open>fio_matches\<close> are the names found on it.
\<close>

definition admit_pseudonym :: "ustr option \<Rightarrow> ustr list \<Rightarrow> (ustr \<times> ustr) list \<Rightarrow> (ustr \<times> ustr) list" where
  "admit_pseudonym pseudo fio_matches ps =
     (case pseudo of
        None \<Rightarrow> ps
      | Some pseudo_text \<Rightarrow>
          (case fio_matches of
             [] \<Rightarrow> ps
           | fio # others \<Rightarrow>
               if pseudo_text = [] then ps
               else (let first_fio = normalize fio; p_norm = normalize pseudo_text
                     in if length p_norm < 3 \<or> p_norm \<in> set pseudo_blacklist then ps
                        else (let ps1 = dict_set p_norm first_fio ps
                              in if list_ex is_latin p_norm
                                 then (let alt = lat_to_ru_approx p_norm
                                       in if alt \<noteq> [] then dict_set alt first_fio ps1 else ps1)
                                 else ps1))))"

subsection \<open>Results and fixed word lists\<close>

text \<open>
  \<open>AnalysisResult\<close> of the moderator. The fixed reasons are the literals of the source:
  \<open>reason_complies\<close> (Soobshchenie sootvetstvuet pravilam), \<open>reason_profanity\<close>,
  \<open>registry_prefix\<close> (Upominanie litsa iz reestra inoagentov, colon, space),
  \<open>reason_threat\<close> and \<open>reason_rude\<close>.
\<close>

datatype category = CLEAN | CATEGORY_A | CATEGORY_B | CATEGORY_C | ERROR

record moderation_result =
  category :: category
  reason :: ustr
  has_links :: bool
  links :: "ustr list"

definition result :: "category \<Rightarrow> ustr \<Rightarrow> ustr list \<Rightarrow> moderation_result" where
  "result cat rsn lnks = \<lparr>category = cat, reason = rsn, has_links = (0 < length lnks), links = lnks\<rparr>"

definition reason_complies :: ustr where
  "reason_complies =
     [1057, 1086, 1086, 1073, 1097, 1077, 1085, 1080, 1077, 32, 1089, 1086, 1086, 1090, 1074,
      1077, 1090, 1089, 1090, 1074, 1091, 1077, 1090, 32, 1087, 1088, 1072, 1074, 1080, 1083,
      1072, 1084]"

definition reason_profanity :: ustr where
  "reason_profanity =
     [1085, 1077, 1085, 1086, 1088, 1084, 1072, 1090, 1080, 1074, 1085, 1072, 1103, 32, 1083,
      1077, 1082, 1089, 1080, 1082, 1072, 32, 34, 1076, 1083, 1103, 32, 1074, 1099, 1088, 1072,
      1079, 1080, 1090, 1077, 1083, 1100, 1085, 1086, 1089, 1090, 1080, 34]"

definition registry_prefix :: ustr where
  "registry_prefix =
     [1059, 1087, 1086, 1084, 1080, 1085, 1072, 1085, 1080, 1077, 32, 1083, 1080, 1094, 1072,
      32, 1080, 1079, 32, 1088, 1077, 1077, 1089, 1090, 1088, 1072, 32, 1080, 1085, 1086, 1072,
      1075, 1077, 1085, 1090, 1086, 1074, 58, 32]"

definition reason_threat :: ustr where
  "reason_threat =
     [1055, 1088, 1080, 1079, 1085, 1072, 1082, 32, 1091, 1075, 1088, 1086, 1079, 47, 1085,
      1072, 1089, 1080, 1083, 1080, 1103]"

definition reason_rude :: ustr where
  "reason_rude =
     [1043, 1088, 1091, 1073, 1086, 1089, 1090, 1100, 47, 1086, 1089, 1082, 1086, 1088, 1073,
      1083, 1077, 1085, 1080, 1077]"

text \<open>
  \<open>token_blacklist\<close>: agent, mat, chel, tut, zdes', kto, chto, novosti, inoagent; the guard
  before the classification uses the list without its last word.
\<close>

definition token_blacklist :: "ustr list" where
  "token_blacklist =
     [[1072, 1075, 1077, 1085, 1090], [1084, 1072, 1090], [1095, 1077, 1083], [1090, 1091, 1090],
      [1079, 1076, 1077, 1089, 1100], [1082, 1090, 1086], [1095, 1090, 1086],
      [1085, 1086, 1074, 1086, 1089, 1090, 1080],
      [1080, 1085, 1086, 1072, 1075, 1077, 1085, 1090]]"

definition token_blacklist_short :: "ustr list" where
  "token_blacklist_short = butlast token_blacklist"

definition pronouns :: "ustr list" where
  "pronouns =
     [[1090, 1099], [1074, 1099], [1086, 1085], [1086, 1085, 1072], [1086, 1085, 1080],
      [1082, 1090, 1086], [1095, 1090, 1086], [1101, 1090, 1086],
      [1079, 1076, 1077, 1089, 1100], [1090, 1072, 1084]]"

definition context_block :: "ustr list" where
  "context_block =
     [[1074, 1089, 1090, 1088, 1077, 1095, 1072],
      [1074, 1089, 1090, 1088, 1077, 1095, 1072, 1077, 1090, 1089, 1103],
      [1095, 1072, 1089, 1090, 1086],
      [1091, 1087, 1086, 1084, 1080, 1085, 1072, 1077, 1090, 1089, 1103]]"

definition threat_words :: "ustr list" where
  "threat_words =
     [[1091, 1073, 1100, 1102], [1087, 1086, 1088, 1074], [1091, 1073, 1100],
      [1087, 1086, 1076, 1078, 1086, 1075], [1074, 1079, 1086, 1088, 1074],
      [1091, 1085, 1080, 1095, 1090, 1086, 1078], [1088, 1072, 1089, 1089, 1090, 1088, 1077, 1083]]"

definition rude_words :: "ustr list" where
  "rude_words =
     [[1076, 1091, 1088, 1072, 1082], [1090, 1091, 1087, 1086, 1081],
      [1080, 1076, 1080, 1086, 1090], [1089, 1074, 1086, 1083, 1086, 1095, 1100],
      [1084, 1077, 1088, 1079, 1072, 1074, 1077, 1094], [1091, 1073, 1083, 1102, 1076, 1086, 1082]]"

subsection \<open>Links and the single-token guard\<close>

text \<open>
  \<open>re.findall('https?://[^\s]+', text)\<close>: a link starts where the scheme stands with a
  character that is not white space after it, and runs to the next white space.
\<close>

definition url_starts :: "ustr \<Rightarrow> bool" where
  "url_starts s =
     (case after_prefix (ascii ''https://'') s of
        Some (d # r) \<Rightarrow> \<not> is_space d
      | _ \<Rightarrow> (case after_prefix (ascii ''http://'') s of
                 Some (d # r) \<Rightarrow> \<not> is_space d
               | _ \<Rightarrow> False))"

fun urls_acc :: "ustr option \<Rightarrow> ustr \<Rightarrow> ustr list" where
  "urls_acc None [] = []"
| "urls_acc (Some u) [] = [u]"
| "urls_acc None (c # cs) =
     (if url_starts (c # cs) then urls_acc (Some [c]) cs else urls_acc None cs)"
| "urls_acc (Some u) (c # cs) =
     (if is_space c then u # urls_acc None cs else urls_acc (Some (u @ [c])) cs)"

definition extract_urls :: "ustr \<Rightarrow> ustr list" where
  "extract_urls s = urls_acc None s"

definition simple_tokens :: "ustr \<Rightarrow> ustr list" where
  "simple_tokens message = runs token_char message"

text \<open>
  The guard for a message of one token that is stop-listed or shorter than three
  characters: CATEGORY_B for the word mat, CLEAN otherwise.
\<close>

definition fast_path :: "ustr list \<Rightarrow> ustr list \<Rightarrow> ustr \<Rightarrow> moderation_result option" where
  "fast_path blacklist lnks message =
     (case simple_tokens message of
        [t] \<Rightarrow>
          (let t0 = normalize t
           in if t0 \<in> set blacklist \<or> length t0 < 3
              then (if t0 = [1084, 1072, 1090] then Some (result CATEGORY_B reason_profanity lnks)
                    else Some (result CLEAN reason_complies lnks))
              else None)
      | _ \<Rightarrow> None)"

subsection \<open>The direct match of a registry name\<close>

text \<open>
  The pattern \<open>\bT0\b.*\bT1\b\<close> of the two escaped tokens, searched in the normalised text.
\<close>

fun gap_word :: "ustr \<Rightarrow> bool \<Rightarrow> ustr \<Rightarrow> bool" where
  "gap_word w prev [] = (word_here w True prev [] \<noteq> None)"
| "gap_word w prev (c # cs) =
     (word_here w True prev (c # cs) \<noteq> None \<or> (c \<noteq> 10 \<and> gap_word w (is_word c) cs))"

definition pair_here :: "ustr \<Rightarrow> ustr \<Rightarrow> bool \<Rightarrow> ustr \<Rightarrow> bool" where
  "pair_here t0 t1 prev s =
     (case word_here t0 True prev s of
        None \<Rightarrow> False
      | Some r \<Rightarrow> gap_word t1 (if t0 = [] then prev else is_word (last t0)) r)"

fun search_pair :: "ustr \<Rightarrow> ustr \<Rightarrow> bool \<Rightarrow> ustr \<Rightarrow> bool" where
  "search_pair t0 t1 prev [] = pair_here t0 t1 prev []"
| "search_pair t0 t1 prev (c # cs) =
     (pair_here t0 t1 prev (c # cs) \<or> search_pair t0 t1 (is_word c) cs)"

definition msg_tokens_set :: "ustr \<Rightarrow> ustr list" where
  "msg_tokens_set message = map normalize (runs token_char (lower message))"

definition matched_tokens :: "ustr list \<Rightarrow> ustr \<Rightarrow> nat" where
  "matched_tokens n_tokens message =
     length (filter (\<lambda>nt. nt \<in> set (msg_tokens_set message)) n_tokens)"

text \<open>The tests the loop body makes on one registry name before it returns.\<close>

definition direct_hit :: "ustr \<Rightarrow> ustr \<Rightarrow> bool" where
  "direct_hit message name =
     (name \<noteq> [] \<and>
      (case split_ws name of
         t0 # t1 # more_tokens \<Rightarrow>
           2 \<le> matched_tokens (t0 # t1 # more_tokens) message \<and>
           search_pair t0 t1 False (normalize message)
       | _ \<Rightarrow> False))"

fun direct_stage :: "ustr list \<Rightarrow> ustr \<Rightarrow> ustr option" where
  "direct_stage [] message = None"
| "direct_stage (name # rest) message =
     (if direct_hit message name then Some name else direct_stage rest message)"

subsection \<open>Aliases: exact and fuzzy\<close>

definition p_ascii :: "ustr \<Rightarrow> ustr" where
  "p_ascii p = filter is_lat_digit p"

fun fuzzy_scan :: "ustr \<Rightarrow> (ustr \<times> ustr) list \<Rightarrow> ustr option" where
  "fuzzy_scan t_lat [] = None"
| "fuzzy_scan t_lat ((p, fio) # rest) =
     (if p_ascii p = [] \<or> length (p_ascii p) < 4 then fuzzy_scan t_lat rest
      else if length t_lat < 4 then fuzzy_scan t_lat rest
      else if 4 / 5 \<le> ratio t_lat (p_ascii p) then Some fio
      else fuzzy_scan t_lat rest)"

fun pseudonym_stage :: "(ustr \<times> ustr) list \<Rightarrow> ustr list \<Rightarrow> ustr option" where
  "pseudonym_stage ps [] = None"
| "pseudonym_stage ps (t # ts) =
     (if length (normalize t) < 3 \<or> normalize t \<in> set token_blacklist then pseudonym_stage ps ts
      else (case map_of ps (normalize t) of
              Some fio \<Rightarrow> Some fio
            | None \<Rightarrow>
                if length (normalize t) < 4 then pseudonym_stage ps ts
                else (case fuzzy_scan (ru_to_lat (normalize t)) ps of
                        Some fio \<Rightarrow> Some fio
                      | None \<Rightarrow> pseudonym_stage ps ts)))"

subsection \<open>The language model\<close>

text \<open>
  \<open>client.generate\<close> returns the completion text or raises. One run of
  \<open>analyze_message\<close> asks it once per long token (the n-th such request gets
  \<open>token_answers n\<close>), once for the names behind aliases and once for the classification.
  The prompts play no part in what follows and are left out.
\<close>

datatype llm_outcome = Raises | Text ustr

record llm =
  token_answers :: "nat \<Rightarrow> llm_outcome"
  alias_answer :: llm_outcome
  classify_answer :: llm_outcome

text \<open>
  The name pattern \<open>(L+\s+L+(?:\s+L+)?)\<close> over the Cyrillic letters \<open>L\<close>, matched where
  the rest of the text is \<open>s\<close>, and its leftmost match.
\<close>

definition fio_here :: "ustr \<Rightarrow> ustr option" where
  "fio_here s =
     (let w1 = takeWhile cyr_letter s; r1 = dropWhile cyr_letter s;
          sp1 = takeWhile is_space r1; r2 = dropWhile is_space r1;
          w2 = takeWhile cyr_letter r2; r3 = dropWhile cyr_letter r2;
          sp2 = takeWhile is_space r3; r4 = dropWhile is_space r3;
          w3 = takeWhile cyr_letter r4
      in if w1 = [] \<or> sp1 = [] \<or> w2 = [] then None
         else if sp2 = [] \<or> w3 = [] then Some (w1 @ sp1 @ w2)
         else Some (w1 @ sp1 @ w2 @ sp2 @ w3))"

fun fio_search :: "ustr \<Rightarrow> ustr option" where
  "fio_search [] = None"
| "fio_search (c # cs) =
     (case fio_here (c # cs) of Some g \<Rightarrow> Some g | None \<Rightarrow> fio_search cs)"

text \<open>
  The requests for single tokens. When an answer holds a name, the code calls the local
  function \<open>tokens\<close> before the \<open>def\<close> that binds it has run; the \<open>UnboundLocalError\<close>
  is caught by the \<open>except Exception: pass\<close> around the loop, as is a failing request. So
  the loop ends without a result on every path.
\<close>

fun token_stage :: "(nat \<Rightarrow> llm_outcome) \<Rightarrow> nat \<Rightarrow> ustr list \<Rightarrow> ustr option" where
  "token_stage answers n [] = None"
| "token_stage answers n (t # ts) =
     (if length (normalize t) < 3 \<or> normalize t \<in> set token_blacklist
      then token_stage answers n ts
      else (case answers n of
              Raises \<Rightarrow> None
            | Text alias_resp_small \<Rightarrow>
                if alias_resp_small = [] then token_stage answers (Suc n) ts
                else (case fio_search alias_resp_small of
                        Some found \<Rightarrow> None
                      | None \<Rightarrow> token_stage answers (Suc n) ts)))"

subsection \<open>Pairs of words that look like a name\<close>

text \<open>\<open>re.findall('(L+\s+L+)', message)\<close>: the matches from left to right, none overlapping.\<close>

definition name_pair_here :: "ustr \<Rightarrow> (ustr \<times> ustr) option" where
  "name_pair_here s =
     (let w1 = takeWhile cyr_letter s; r1 = dropWhile cyr_letter s;
          sp1 = takeWhile is_space r1; r2 = dropWhile is_space r1;
          w2 = takeWhile cyr_letter r2; r3 = dropWhile cyr_letter r2
      in if w1 = [] \<or> sp1 = [] \<or> w2 = [] then None else Some (w1 @ sp1 @ w2, r3))"

lemma name_pair_here_shorter:
  assumes "name_pair_here s = Some (g, rest)"
  shows "length rest < length s"
proof -
  from assms have w1: "takeWhile cyr_letter s \<noteq> []"
    and rest: "rest = dropWhile cyr_letter (dropWhile is_space (dropWhile cyr_letter s))"
    by (auto simp: name_pair_here_def Let_def split: if_splits)
  from w1 obtain c cs where s: "s = c # cs" and c: "cyr_letter c"
    by (cases s) (auto split: if_splits)
  have "length rest \<le> length (dropWhile cyr_letter s)"
    unfolding rest by (meson le_trans length_dropWhile_le)
  also have "\<dots> \<le> length cs"
    using s c by (simp add: length_dropWhile_le)
  finally show ?thesis using s by simp
qed

function name_pairs :: "ustr \<Rightarrow> ustr list" where
  "name_pairs [] = []"
| "name_pairs (c # cs) =
     (case name_pair_here (c # cs) of
        Some (g, rest) \<Rightarrow> g # name_pairs rest
      | None \<Rightarrow> name_pairs cs)"
  by pat_completeness auto
termination
proof (relation "measure length", goal_cases)
  case 1
  show ?case by simp
next
  case (2 c cs)
  show ?case by simp
next
  case (3 c cs x g rest)
  then show ?case using name_pair_here_shorter[of "c # cs" g rest] by simp
qed

text \<open>
  \<open>local_candidates\<close> is a set, here the list of its elements in the order they were
  added: the normalised pairs none of whose words is a pronoun or stop-listed.
\<close>

fun collect_candidates :: "ustr list \<Rightarrow> ustr list \<Rightarrow> ustr list" where
  "collect_candidates [] acc = acc"
| "collect_candidates (m # ms) acc =
     (if list_ex (\<lambda>part. part \<in> set pronouns \<or> part \<in> set token_blacklist) (split_ws (normalize m))
      then collect_candidates ms acc
      else collect_candidates ms (set_add (normalize m) acc))"

definition local_candidates :: "ustr \<Rightarrow> ustr list" where
  "local_candidates message = collect_candidates (name_pairs message) []"

text \<open>\<open>len(set(tokens(x)) & set(tokens(y)))\<close>.\<close>

definition common_tokens :: "ustr \<Rightarrow> ustr \<Rightarrow> nat" where
  "common_tokens x y = length (remdups (filter (\<lambda>t. t \<in> set (split_ws y)) (split_ws x)))"

fun registry_scan :: "ustr \<Rightarrow> ustr \<Rightarrow> ustr list \<Rightarrow> ustr option" where
  "registry_scan cand msg_norm [] = None"
| "registry_scan cand msg_norm (reg # rest) =
     (if 2 \<le> common_tokens cand reg
      then (if list_ex (\<lambda>ctx. contains ctx msg_norm) context_block
            then registry_scan cand msg_norm rest else Some reg)
      else registry_scan cand msg_norm rest)"

fun pair_stage :: "ustr list \<Rightarrow> ustr \<Rightarrow> ustr list \<Rightarrow> ustr option" where
  "pair_stage [] msg_norm regs = None"
| "pair_stage (cand # cands) msg_norm regs =
     (case registry_scan cand msg_norm regs of
        Some reg \<Rightarrow> Some reg
      | None \<Rightarrow> pair_stage cands msg_norm regs)"

subsection \<open>Names the language model finds behind aliases\<close>

definition alias_parts :: "ustr \<Rightarrow> ustr list" where
  "alias_parts alias_resp =
     filter (\<lambda>part. part \<noteq> [])
       (map strip (runs (\<lambda>c. c \<noteq> 59 \<and> c \<noteq> 44)
                         (strip (map (\<lambda>c. if c = 10 then 44 else c) alias_resp))))"

fun collect_fios :: "ustr list \<Rightarrow> ustr list \<Rightarrow> ustr list" where
  "collect_fios [] acc = acc"
| "collect_fios (part # parts) acc =
     (case fio_search (filter (\<lambda>c. cyr_letter c \<or> is_space c \<or> c = 45) part) of
        Some g \<Rightarrow> collect_fios parts (set_add (normalize g) acc)
      | None \<Rightarrow> collect_fios parts acc)"

definition found_fios :: "llm_outcome \<Rightarrow> ustr list" where
  "found_fios answer =
     (case answer of
        Raises \<Rightarrow> []
      | Text alias_resp \<Rightarrow> if alias_resp = [] then [] else collect_fios (alias_parts alias_resp) [])"

fun first_overlap :: "ustr \<Rightarrow> ustr list \<Rightarrow> ustr option" where
  "first_overlap f [] = None"
| "first_overlap f (reg # rest) =
     (if 2 \<le> common_tokens f reg then Some reg else first_overlap f rest)"

fun match_fios :: "ustr list \<Rightarrow> ustr list \<Rightarrow> ustr list" where
  "match_fios [] regs = []"
| "match_fios (f # fs) regs =
     (case first_overlap f regs of
        Some reg \<Rightarrow> reg # match_fios fs regs
      | None \<Rightarrow> match_fios fs regs)"

text \<open>\<open>', '.join(matched)\<close>.\<close>

fun join_comma :: "ustr list \<Rightarrow> ustr" where
  "join_comma [] = []"
| "join_comma [x] = x"
| "join_comma (x # y # r) = x @ [44, 32] @ join_comma (y # r)"

subsection \<open>The classification and its fallback\<close>

text \<open>
  The reason is taken from the answer with \<open>PRICHINA:\s*(.+?)(?=\n|$)\<close>, ignoring case:
  after the word, the white space is skipped and the group runs to the end of the line. When
  nothing but white space follows, the pattern backs off to the last of it that is not a
  line feed; when there is none, the pattern does not match there.
\<close>

fun after_prefix_ci :: "ustr \<Rightarrow> ustr \<Rightarrow> ustr option" where
  "after_prefix_ci [] s = Some s"
| "after_prefix_ci (x # xs) [] = None"
| "after_prefix_ci (x # xs) (y # ys) = (if x = lower_cp y then after_prefix_ci xs ys else None)"

definition reason_group :: "ustr \<Rightarrow> ustr option" where
  "reason_group r =
     (case dropWhile is_space r of
        c # cs \<Rightarrow> Some (takeWhile (\<lambda>x. x \<noteq> 10) (c # cs))
      | [] \<Rightarrow> (case filter (\<lambda>x. x \<noteq> 10) r of [] \<Rightarrow> None | c # cs \<Rightarrow> Some [last (c # cs)]))"

definition reason_here :: "ustr \<Rightarrow> ustr option" where
  "reason_here s =
     (case after_prefix_ci [1087, 1088, 1080, 1095, 1080, 1085, 1072, 58] s of
        None \<Rightarrow> None
      | Some r \<Rightarrow> reason_group r)"

fun reason_search :: "ustr \<Rightarrow> ustr option" where
  "reason_search [] = None"
| "reason_search (c # cs) =
     (case reason_here (c # cs) of Some g \<Rightarrow> Some g | None \<Rightarrow> reason_search cs)"

definition llm_reason :: "ustr \<Rightarrow> ustr" where
  "llm_reason response =
     (case reason_search response of Some g \<Rightarrow> strip g | None \<Rightarrow> reason_complies)"

text \<open>
  The category read from the answer: CATEGORY_A (also for the words ogranicheny and
  razgovory), else CATEGORY_B, else CATEGORY_C, else CLEAN.
\<close>

definition parse_category :: "ustr \<Rightarrow> category" where
  "parse_category response =
     (if contains (ascii ''CATEGORY_A'') response \<or>
         contains [1086, 1075, 1088, 1072, 1085, 1080, 1095, 1077, 1085, 1099] response \<or>
         contains [1088, 1072, 1079, 1075, 1086, 1074, 1086, 1088, 1099] response
      then CATEGORY_A
      else if contains (ascii ''CATEGORY_B'') response then CATEGORY_B
      else if contains (ascii ''CATEGORY_C'') response then CATEGORY_C
      else CLEAN)"

definition has_pseudonym_token :: "(ustr \<times> ustr) list \<Rightarrow> ustr \<Rightarrow> bool" where
  "has_pseudonym_token ps message =
     list_ex (\<lambda>t. map_of ps (normalize t) \<noteq> None) (simple_tokens message)"

text \<open>
  The parsed answer, with the downgrade: CATEGORY_C stands only with a matched name (there
  is none when this point is reached), a candidate pair or a token that is a known alias.
\<close>

definition classify_text :: "moderator \<Rightarrow> ustr list \<Rightarrow> ustr \<Rightarrow> ustr list \<Rightarrow> ustr \<Rightarrow> moderation_result" where
  "classify_text ag matched message lnks response =
     (let cat = parse_category response;
          rsn = (if cat = CLEAN then reason_complies else llm_reason response);
          has_local_name = (local_candidates message \<noteq> [] \<or> has_pseudonym_token (pseudonyms ag) message)
      in if cat = CATEGORY_C \<and> matched = [] \<and> \<not> has_local_name
         then result CLEAN reason_complies lnks
         else result cat rsn lnks)"

text \<open>The offline classification of the \<open>except\<close> branch.\<close>

definition local_fallback :: "ustr \<Rightarrow> ustr list \<Rightarrow> moderation_result" where
  "local_fallback low_text lnks =
     (if list_ex (\<lambda>w. contains w low_text) threat_words then result CATEGORY_A reason_threat lnks
      else if list_ex (\<lambda>w. contains w low_text) rude_words then result CATEGORY_B reason_rude lnks
      else result CLEAN reason_complies lnks)"

definition classify_stage :: "moderator \<Rightarrow> llm \<Rightarrow> ustr list \<Rightarrow> ustr \<Rightarrow> moderation_result" where
  "classify_stage ag service matched message =
     (case classify_answer service of
        Text response \<Rightarrow> classify_text ag matched message (extract_urls message) response
      | Raises \<Rightarrow> local_fallback (normalize message) (extract_urls message))"

subsection \<open>\<open>analyze_message\<close>\<close>

text \<open>
  \<open>early_result\<close> is what \<open>analyze_message\<close> returns before it asks for the
  classification, if it returns there. Nothing in the body raises outside the inner
  \<open>try\<close> blocks, so the outer handler with its ERROR result is never entered.
\<close>

definition early_result :: "moderator \<Rightarrow> llm \<Rightarrow> ustr \<Rightarrow> moderation_result option" where
  "early_result ag service message =
     (let lnks = extract_urls message in
      case fast_path token_blacklist lnks message of
        Some r \<Rightarrow> Some r
      | None \<Rightarrow>
      (case direct_stage (inoagents ag) message of
        Some name \<Rightarrow> Some (result CATEGORY_C (registry_prefix @ name) lnks)
      | None \<Rightarrow>
      (case pseudonym_stage (pseudonyms ag) (simple_tokens message) of
        Some fio \<Rightarrow> Some (result CATEGORY_C (registry_prefix @ fio) lnks)
      | None \<Rightarrow>
      (case token_stage (token_answers service) 0 (simple_tokens message) of
        Some reg \<Rightarrow> Some (result CATEGORY_C (registry_prefix @ reg) lnks)
      | None \<Rightarrow>
      (case pair_stage (local_candidates message) (normalize message) (inoagents ag) of
        Some reg \<Rightarrow> Some (result CATEGORY_C (registry_prefix @ reg) lnks)
      | None \<Rightarrow>
      (if match_fios (found_fios (alias_answer service)) (inoagents ag) \<noteq> []
       then Some (result CATEGORY_C
                    (registry_prefix @ join_comma (match_fios (found_fios (alias_answer service)) (inoagents ag)))
                    lnks)
       else fast_path token_blacklist_short lnks message))))))"

definition analyze_message :: "moderator \<Rightarrow> llm \<Rightarrow> ustr \<Rightarrow> moderation_result" where
  "analyze_message ag service message =
     (case early_result ag service message of
        Some r \<Rightarrow> r
      | None \<Rightarrow>
          classify_stage ag service
            (match_fios (found_fios (alias_answer service)) (inoagents ag)) message)"

section \<open>Example inputs\<close>




definition msg_seven :: ustr where
  "msg_seven = [1091, 1073, 1080, 1090, 1100, 32, 1091, 1085, 1080, 1095, 1090, 1086, 1078,
     1080, 1090, 1100, 32, 1089, 1084, 1077, 1088, 1090, 1100, 32, 1085, 1077, 1085, 1072, 1074,
     1080, 1078, 1091, 32, 1090, 1077, 1088, 1088, 1086, 1088, 1080, 1079, 1084, 32, 1074, 1079,
     1086, 1088, 1074, 1072, 1090, 1100, 32, 1089, 1090, 1088, 1077, 1083, 1103, 1090, 1100]"




text \<open>
  \<open>name_li_yan\<close> and \<open>name_ko_en\<close> are the normalised names li yan and ko en;
  \<open>raw_li_yan\<close> is Li Yan as a registry line spells it; \<open>word_mat\<close> is the word mat;
  \<open>word_tide\<close> and \<open>word_diet\<close> are the English words tide and diet.
\<close>

definition name_li_yan :: ustr where
  "name_li_yan = [1083, 1080, 32, 1103, 1085]"

definition name_ko_en :: ustr where
  "name_ko_en = [1082, 1086, 32, 1077, 1085]"

definition raw_li_yan :: ustr where
  "raw_li_yan = [1051, 1080, 32, 1071, 1085]"

definition word_mat :: ustr where
  "word_mat = [1084, 1072, 1090]"




definition msg_you_agent :: ustr where
  "msg_you_agent = [1090, 1099, 32, 1080, 1085, 1086, 1072, 1075, 1077, 1085, 1090]"

definition msg_you_fool :: ustr where
  "msg_you_fool = [1090, 1099, 32, 1076, 1091, 1088, 1072, 1082]"

definition msg_threat :: ustr where
  "msg_threat = [1091, 1073, 1100, 1102]"

definition msg_abcdx :: ustr where
  "msg_abcdx = [97, 98, 99, 100, 120]"

definition registry_one :: moderator where
  "registry_one = \<lparr>inoagents = [name_li_yan], pseudonyms = []\<rparr>"



definition registry_aliases :: moderator where
  "registry_aliases = \<lparr>inoagents = [name_li_yan, name_ko_en],
     pseudonyms = [(ascii ''abcdy'', name_li_yan), (ascii ''abcdz'', name_ko_en)]\<rparr>"

definition service_down :: llm where
  "service_down = \<lparr>token_answers = (\<lambda>n. Raises), alias_answer = Raises, classify_answer = Raises\<rparr>"

definition service_says_c :: llm where
  "service_says_c = \<lparr>token_answers = (\<lambda>n. Text []), alias_answer = Text [],
     classify_answer = Text (ascii ''CATEGORY_C'')\<rparr>"




section \<open>Rounding to the nearest double\<close>


















section \<open>The history window is touched by \<open>add_message\<close> only\<close>




section \<open>The heuristic score\<close>








section \<open>Escalation in the multi-level analyzer\<close>










section \<open>Contextual references\<close>













section \<open>Aliases admitted by the loader\<close>

lemmas norm_eval = normalize_def strip_def replace_yo_def lower_def lower_cp_def is_space_def

lemmas translit_eval = lat_to_ru_approx_def lat_table_def lower_def lower_cp_def

lemma dict_set_map_fst:
  "map fst (dict_set k v d) = (if k \<in> set (map fst d) then map fst d else map fst d @ [k])"
  by (induction d) (fastforce simp: image_iff)+

lemma dict_set_keys: "fst ` set (dict_set k v d) = insert k (fst ` set d)"
proof -
  have "set (map fst (dict_set k v d)) = insert k (set (map fst d))"
    unfolding dict_set_map_fst by auto
  then show ?thesis by simp
qed

text \<open>
  The alias itself enters the mapping only when it has at least three characters and is
  not on the deny-list.
\<close>

lemma admit_pseudonym_primary:
  assumes "k \<in> fst ` set (admit_pseudonym (Some pseudo) fio_matches ps)"
    and "k \<notin> fst ` set ps" and "\<not> list_ex is_latin (normalize pseudo)"
  shows "k = normalize pseudo \<and> 3 \<le> length k \<and> k \<notin> set pseudo_blacklist"
  using assms
  by (auto simp: admit_pseudonym_def Let_def dict_set_keys split: list.splits if_splits)

text \<open>
  Claim C9 says that every key of the mapping, the derived transliterations included, has
  at least three characters and is off the deny-list. The derived key is only tested for
  being non-empty: the alias Mat brings in the key mat in Cyrillic, which is on the
  deny-list, and the alias xxx brings in the key ks in Cyrillic, of length 2.
\<close>

theorem admit_pseudonym_derived_alias:
  "admit_pseudonym (Some (ascii ''Mat'')) [raw_li_yan] [] =
     [(ascii ''mat'', name_li_yan), (word_mat, name_li_yan)] \<and>
   word_mat \<in> set pseudo_blacklist \<and>
   admit_pseudonym (Some (ascii ''xxx'')) [raw_li_yan] [] =
     [(ascii ''xxx'', name_li_yan), ([1082, 1089], name_li_yan)] \<and>
   length [1082, 1089 :: nat] < 3"
proof -
  have n: "normalize raw_li_yan = name_li_yan"
    by (simp add: raw_li_yan_def name_li_yan_def norm_eval)
  have m: "normalize (ascii ''Mat'') = ascii ''mat''" "normalize (ascii ''xxx'') = ascii ''xxx''"
    by (simp_all add: ascii_def norm_eval)
  have a: "lat_to_ru_approx (ascii ''mat'') = word_mat" "lat_to_ru_approx (ascii ''xxx'') = [1082, 1089]"
    by (simp_all add: ascii_def word_mat_def translit_eval)
  have l: "list_ex is_latin (ascii ''mat'')" "list_ex is_latin (ascii ''xxx'')"
    by (simp_all add: ascii_def is_latin_def)
  have b: "ascii ''mat'' \<notin> set pseudo_blacklist" "ascii ''xxx'' \<notin> set pseudo_blacklist"
    by (simp_all add: ascii_def pseudo_blacklist_def)
  have w: "word_mat \<in> set pseudo_blacklist" by (simp add: word_mat_def pseudo_blacklist_def)
  have k: "ascii ''mat'' \<noteq> word_mat" "ascii ''xxx'' \<noteq> [1082, 1089]" "word_mat \<noteq> []"
    "length (ascii ''mat'') = 3" "length (ascii ''xxx'') = 3" "ascii ''Mat'' \<noteq> []" "ascii ''xxx'' \<noteq> []"
    by (simp_all add: ascii_def word_mat_def)
  show ?thesis
    using w k b by (simp add: admit_pseudonym_def Let_def n m a l)
qed


section \<open>Registry names and aliases in a message\<close>

lemma fast_path_many: "length (simple_tokens m) \<noteq> 1 \<Longrightarrow> fast_path blacklist lnks m = None"
  by (cases "simple_tokens m" rule: list.exhaust; simp add: fast_path_def split: list.splits)

lemma fast_path_long_token:
  assumes "t \<in> set (simple_tokens m)" "3 \<le> length (normalize t)" "normalize t \<notin> set blacklist"
  shows "fast_path blacklist lnks m = None"
proof (cases "length (simple_tokens m) = 1")
  case True
  then obtain t' where one: "simple_tokens m = [t']"
    by (cases "simple_tokens m") auto
  with assms(1) have "t' = t" by simp
  with one assms(2,3) show ?thesis by (simp add: fast_path_def Let_def)
next
  case False
  then show ?thesis by (rule fast_path_many)
qed

lemma direct_stage_sound:
  "direct_stage regs m = Some hit \<Longrightarrow> hit \<in> set regs \<and> direct_hit m hit"
  by (induction regs) (auto split: if_splits)




lemma analyze_message_direct:
  assumes "fast_path token_blacklist (extract_urls m) m = None"
    and "direct_stage (inoagents ag) m = Some hit"
  shows "analyze_message ag service m = result CATEGORY_C (registry_prefix @ hit) (extract_urls m)"
  using assms by (simp add: analyze_message_def early_result_def Let_def)



lemmas tok_eval = simple_tokens_def runs_def token_char_def cyr_letter_def is_latin_def





lemma split_li_yan: "split_ws name_li_yan = [[1083, 1080], [1103, 1085]]"
  by (simp add: name_li_yan_def split_ws_def runs_def is_space_def)

lemma split_ko_en: "split_ws name_ko_en = [[1082, 1086], [1077, 1085]]"
  by (simp add: name_ko_en_def split_ws_def runs_def is_space_def)








section \<open>Fuzzy alias matches\<close>

lemma fuzzy_scan_complete:
  assumes "(p, fio) \<in> set ps" "4 \<le> length (p_ascii p)" "4 \<le> length t_lat"
    and "4 / 5 \<le> ratio t_lat (p_ascii p)"
  shows "\<exists>fio'. fuzzy_scan t_lat ps = Some fio'"
  using assms(1)
proof (induction ps)
  case Nil
  then show ?case by simp
next
  case (Cons a ps)
  obtain q f where a: "a = (q, f)" by (cases a)
  show ?case
  proof (cases "(p, fio) = a")
    case True
    with a assms(2,3,4) show ?thesis by auto
  next
    case False
    with Cons have "\<exists>fio'. fuzzy_scan t_lat ps = Some fio'" by simp
    with a show ?thesis by auto
  qed
qed

lemma fuzzy_scan_sound:
  "fuzzy_scan t_lat ps = Some fio \<Longrightarrow>
     \<exists>p. (p, fio) \<in> set ps \<and> 4 \<le> length (p_ascii p) \<and> 4 \<le> length t_lat \<and>
         4 / 5 \<le> ratio t_lat (p_ascii p)"
proof (induction ps)
  case Nil
  then show ?case by simp
next
  case (Cons a ps)
  obtain q f where a: "a = (q, f)" by (cases a)
  show ?case
  proof (cases "fuzzy_scan t_lat ps = Some fio")
    case True
    with Cons.IH obtain p where "(p, fio) \<in> set ps" "4 \<le> length (p_ascii p)" "4 \<le> length t_lat"
      "4 / 5 \<le> ratio t_lat (p_ascii p)" by blast
    then show ?thesis by auto
  next
    case False
    with Cons.prems a have "f = fio \<and> 4 \<le> length (p_ascii q) \<and> 4 \<le> length t_lat \<and>
        4 / 5 \<le> ratio t_lat (p_ascii q)"
      by (auto split: if_splits)
    with a show ?thesis by auto
  qed
qed

lemma fuzzy_scan_first:
  assumes "fuzzy_scan t_lat ps1 = None" "4 \<le> length (p_ascii p)" "4 \<le> length t_lat"
    and "4 / 5 \<le> ratio t_lat (p_ascii p)"
  shows "fuzzy_scan t_lat (ps1 @ (p, fio) # ps2) = Some fio"
  using assms(1)
proof (induction ps1)
  case Nil
  with assms(2,3,4) show ?case by auto
next
  case (Cons a ps1)
  obtain q f where a: "a = (q, f)" by (cases a)
  with Cons show ?case by (auto split: if_splits)
qed

lemma map_of_in_snd: "map_of ps k = Some v \<Longrightarrow> v \<in> snd ` set ps"
  by (metis map_of_SomeD image_eqI snd_conv)

lemma pseudonym_stage_sound: "pseudonym_stage ps ts = Some fio \<Longrightarrow> fio \<in> snd ` set ps"
proof (induction ts)
  case Nil
  then show ?case by simp
next
  case (Cons t ts)
  show ?case
  proof (cases "pseudonym_stage ps ts = Some fio")
    case True
    with Cons.IH show ?thesis by simp
  next
    case False
    with Cons.prems have "map_of ps (normalize t) = Some fio \<or>
        fuzzy_scan (ru_to_lat (normalize t)) ps = Some fio"
      by (auto split: if_splits option.splits)
    then show ?thesis
    proof
      assume "map_of ps (normalize t) = Some fio"
      then show ?thesis by (rule map_of_in_snd)
    next
      assume "fuzzy_scan (ru_to_lat (normalize t)) ps = Some fio"
      from fuzzy_scan_sound[OF this] show ?thesis by force
    qed
  qed
qed

lemma pseudonym_stage_complete:
  assumes "t \<in> set ts" "4 \<le> length (normalize t)" "normalize t \<notin> set token_blacklist"
    and "fuzzy_scan (ru_to_lat (normalize t)) ps = Some fio"
  shows "\<exists>fio'. pseudonym_stage ps ts = Some fio'"
  using assms(1)
proof (induction ts)
  case Nil
  then show ?case by simp
next
  case (Cons u ts)
  show ?case
  proof (cases "u = t")
    case True
    with assms(2,3,4) show ?thesis by (auto split: option.splits)
  next
    case False
    with Cons have "\<exists>fio'. pseudonym_stage ps ts = Some fio'" by simp
    then show ?thesis by (auto split: option.splits)
  qed
qed

lemma pseudonym_stage_first:
  "pseudonym_stage ps pre = None \<Longrightarrow> pseudonym_stage ps (pre @ ts) = pseudonym_stage ps ts"
  by (induction pre) (auto split: if_splits option.splits)

lemma analyze_message_alias:
  assumes "fast_path token_blacklist (extract_urls m) m = None"
    and "direct_stage (inoagents ag) m = None"
    and "pseudonym_stage (pseudonyms ag) (simple_tokens m) = Some fio"
  shows "analyze_message ag service m = result CATEGORY_C (registry_prefix @ fio) (extract_urls m)"
  using assms by (simp add: analyze_message_def early_result_def Let_def)

text \<open>
  Claim C4, amended. Let a token of the message have normalised length at least 4, be off
  the stop-list and be no alias itself, and let some alias have a Latin projection of
  length at least 4 whose similarity ratio with the token's transliteration (of length at
  least 4) is at least 0.80. Then \<open>analyze_message\<close> returns CATEGORY_C, and its reason
  names the entry of the first hit in the order of the scan (the registry names, then the
  tokens from left to right, each against the aliases in insertion order): the entry of
  this alias when no registry name matches directly, no earlier token yields a hit and no
  earlier alias matches the token. A fuzzy match always rests on an alias whose Latin
  projection has at least 4 characters and whose ratio is at least 0.80.
\<close>

theorem fuzzy_alias_first_hit:
  assumes "t \<in> set (simple_tokens m)"
    and "4 \<le> length (normalize t)"
    and "normalize t \<notin> set token_blacklist"
    and "map_of (pseudonyms ag) (normalize t) = None"
    and "(p, fio) \<in> set (pseudonyms ag)"
    and "4 \<le> length (p_ascii p)"
    and "4 \<le> length (ru_to_lat (normalize t))"
    and "4 / 5 \<le> ratio (ru_to_lat (normalize t)) (p_ascii p)"
  shows "category (analyze_message ag service m) = CATEGORY_C \<and>
         (\<exists>who. reason (analyze_message ag service m) = registry_prefix @ who \<and>
                (who \<in> set (inoagents ag) \<or> who \<in> snd ` set (pseudonyms ag))) \<and>
         (direct_stage (inoagents ag) m = None \<and>
          (\<exists>pre post ps1 ps2.
              simple_tokens m = pre @ t # post \<and> pseudonym_stage (pseudonyms ag) pre = None \<and>
              pseudonyms ag = ps1 @ (p, fio) # ps2 \<and>
              fuzzy_scan (ru_to_lat (normalize t)) ps1 = None) \<longrightarrow>
            reason (analyze_message ag service m) = registry_prefix @ fio) \<and>
         (\<forall>t_lat fio'. fuzzy_scan t_lat (pseudonyms ag) = Some fio' \<longrightarrow>
            (\<exists>p'. (p', fio') \<in> set (pseudonyms ag) \<and> 4 \<le> length (p_ascii p') \<and>
                  4 \<le> length t_lat \<and> 4 / 5 \<le> ratio t_lat (p_ascii p')))"
proof -
  let ?r = "analyze_message ag service m"
  have fp: "fast_path token_blacklist (extract_urls m) m = None"
    using assms(1,2,3) by (intro fast_path_long_token[of t]) simp_all
  obtain f1 where f1: "fuzzy_scan (ru_to_lat (normalize t)) (pseudonyms ag) = Some f1"
    using fuzzy_scan_complete[OF assms(5,6,7,8)] by blast
  obtain f2 where f2: "pseudonym_stage (pseudonyms ag) (simple_tokens m) = Some f2"
    using pseudonym_stage_complete[OF assms(1,2,3) f1] by blast
  have a: "category ?r = CATEGORY_C \<and>
         (\<exists>who. reason ?r = registry_prefix @ who \<and>
                (who \<in> set (inoagents ag) \<or> who \<in> snd ` set (pseudonyms ag)))"
  proof (cases "direct_stage (inoagents ag) m")
    case None
    from analyze_message_alias[OF fp None f2, of service] pseudonym_stage_sound[OF f2]
    show ?thesis by (auto simp: result_def)
  next
    case (Some hit)
    from analyze_message_direct[OF fp Some, of service] direct_stage_sound[OF Some]
    show ?thesis by (auto simp: result_def)
  qed
  have b: "reason ?r = registry_prefix @ fio"
    if d: "direct_stage (inoagents ag) m = None"
      and s: "simple_tokens m = pre @ t # post" "pseudonym_stage (pseudonyms ag) pre = None"
        "pseudonyms ag = ps1 @ (p, fio) # ps2" "fuzzy_scan (ru_to_lat (normalize t)) ps1 = None"
    for pre post ps1 ps2
  proof -
    have "fuzzy_scan (ru_to_lat (normalize t)) (pseudonyms ag) = Some fio"
      unfolding s(3) using fuzzy_scan_first[OF s(4) assms(6,7,8)] by simp
    with assms(2,3,4) have "pseudonym_stage (pseudonyms ag) (t # post) = Some fio"
      by simp
    then have "pseudonym_stage (pseudonyms ag) (simple_tokens m) = Some fio"
      unfolding s(1) using pseudonym_stage_first[OF s(2)] by simp
    from analyze_message_alias[OF fp d this, of service] show ?thesis
      by (simp add: result_def)
  qed
  have c: "\<exists>p'. (p', fio') \<in> set (pseudonyms ag) \<and> 4 \<le> length (p_ascii p') \<and>
                  4 \<le> length t_lat \<and> 4 / 5 \<le> ratio t_lat (p_ascii p')"
    if "fuzzy_scan t_lat (pseudonyms ag) = Some fio'" for t_lat fio'
    using fuzzy_scan_sound[OF that] .
  show ?thesis using a b c by blast
qed


lemma abcdx_tokens: "simple_tokens msg_abcdx = [msg_abcdx]"
  by (simp add: msg_abcdx_def tok_eval)

lemma abcdx_normalize: "normalize msg_abcdx = msg_abcdx"
  by (simp add: msg_abcdx_def norm_eval)

lemma abcdx_latin: "ru_to_lat msg_abcdx = msg_abcdx"
  by (simp add: msg_abcdx_def ru_to_lat_def ru_table_def lower_def lower_cp_def is_lat_digit_def)

lemma abcdx_not_stop_listed: "msg_abcdx \<notin> set token_blacklist"
  by (simp add: msg_abcdx_def token_blacklist_def)

lemma abcdx_no_alias: "map_of (pseudonyms registry_aliases) msg_abcdx = None"
  by (simp add: registry_aliases_def msg_abcdx_def ascii_def)

lemma alias_projections:
  "p_ascii (ascii ''abcdy'') = [97, 98, 99, 100, 121]"
  "p_ascii (ascii ''abcdz'') = [97, 98, 99, 100, 122]"
  by (simp_all add: ascii_def p_ascii_def is_lat_digit_def)

lemma abcdx_ratios:
  "ratio msg_abcdx [97, 98, 99, 100, 121] = 4 / 5"
  "ratio msg_abcdx [97, 98, 99, 100, 122] = 4 / 5"
  unfolding msg_abcdx_def by code_simp+

lemma abcdx_no_direct: "direct_stage (inoagents registry_aliases) msg_abcdx = None"
proof -
  have "lower msg_abcdx = msg_abcdx" by (simp add: msg_abcdx_def lower_def lower_cp_def)
  then have "msg_tokens_set msg_abcdx = [msg_abcdx]"
    using abcdx_tokens by (simp add: msg_tokens_set_def simple_tokens_def abcdx_normalize)
  then have "matched_tokens [[1083, 1080], [1103, 1085]] msg_abcdx = 0"
    "matched_tokens [[1082, 1086], [1077, 1085]] msg_abcdx = 0"
    by (simp_all add: matched_tokens_def msg_abcdx_def)
  then have "\<not> direct_hit msg_abcdx name_li_yan" "\<not> direct_hit msg_abcdx name_ko_en"
    by (simp_all add: direct_hit_def split_li_yan split_ko_en)
  then show ?thesis by (simp add: registry_aliases_def)
qed

theorem fuzzy_alias_first_hit_witness:
  "category (analyze_message registry_aliases service_down msg_abcdx) = CATEGORY_C \<and>
   reason (analyze_message registry_aliases service_down msg_abcdx) = registry_prefix @ name_li_yan"
proof -
  have 1: "msg_abcdx \<in> set (simple_tokens msg_abcdx)" by (simp add: abcdx_tokens)
  have 2: "4 \<le> length (normalize msg_abcdx)" by (simp add: abcdx_normalize) (simp add: msg_abcdx_def)
  have 3: "normalize msg_abcdx \<notin> set token_blacklist"
    by (simp add: abcdx_normalize abcdx_not_stop_listed)
  have 4: "map_of (pseudonyms registry_aliases) (normalize msg_abcdx) = None"
    by (simp add: abcdx_normalize abcdx_no_alias)
  have 5: "(ascii ''abcdy'', name_li_yan) \<in> set (pseudonyms registry_aliases)"
    by (simp add: registry_aliases_def)
  have 6: "4 \<le> length (p_ascii (ascii ''abcdy''))" by (simp add: alias_projections)
  have 7: "4 \<le> length (ru_to_lat (normalize msg_abcdx))"
    by (simp add: abcdx_normalize abcdx_latin) (simp add: msg_abcdx_def)
  have 8: "4 / 5 \<le> ratio (ru_to_lat (normalize msg_abcdx)) (p_ascii (ascii ''abcdy''))"
    by (simp add: abcdx_normalize abcdx_latin alias_projections abcdx_ratios)
  have first: "simple_tokens msg_abcdx = [] @ msg_abcdx # [] \<and>
      pseudonym_stage (pseudonyms registry_aliases) [] = None \<and>
      pseudonyms registry_aliases = [] @ (ascii ''abcdy'', name_li_yan) # [(ascii ''abcdz'', name_ko_en)] \<and>
      fuzzy_scan (ru_to_lat (normalize msg_abcdx)) [] = None"
    by (simp add: abcdx_tokens registry_aliases_def)
  show ?thesis
    using fuzzy_alias_first_hit [OF 1 2 3 4 5 6 7 8, of service_down] abcdx_no_direct first
    by blast
qed

text \<open>
  The claim as it was worded promises the entry of every alias that is close enough. The
  token abcdx is as close to the alias abcdz of ko en as to the alias abcdy of li yan
  (ratio 0.8 each); the reason names li yan, whose alias the loop meets first, and not ko en.
\<close>

theorem fuzzy_alias_second_alias_counterexample:
  "msg_abcdx \<in> set (simple_tokens msg_abcdx) \<and> 4 \<le> length (normalize msg_abcdx) \<and>
   normalize msg_abcdx \<notin> set token_blacklist \<and>
   map_of (pseudonyms registry_aliases) (normalize msg_abcdx) = None \<and>
   (ascii ''abcdz'', name_ko_en) \<in> set (pseudonyms registry_aliases) \<and>
   4 \<le> length (p_ascii (ascii ''abcdz'')) \<and> 4 \<le> length (ru_to_lat (normalize msg_abcdx)) \<and>
   4 / 5 \<le> ratio (ru_to_lat (normalize msg_abcdx)) (p_ascii (ascii ''abcdz'')) \<and>
   reason (analyze_message registry_aliases service_down msg_abcdx) = registry_prefix @ name_li_yan \<and>
   \<not> contains name_ko_en (reason (analyze_message registry_aliases service_down msg_abcdx))"
proof -
  have fp: "fast_path token_blacklist (extract_urls msg_abcdx) msg_abcdx = None"
    by (intro fast_path_long_token[of msg_abcdx])
       (simp_all add: abcdx_tokens abcdx_normalize abcdx_not_stop_listed, simp add: msg_abcdx_def)
  have len: "length msg_abcdx = 5" by (simp add: msg_abcdx_def)
  have fz: "fuzzy_scan msg_abcdx (pseudonyms registry_aliases) = Some name_li_yan"
    by (simp add: registry_aliases_def alias_projections abcdx_ratios len)
  have ps: "pseudonym_stage (pseudonyms registry_aliases) (simple_tokens msg_abcdx) = Some name_li_yan"
    by (simp add: abcdx_tokens abcdx_normalize abcdx_not_stop_listed abcdx_no_alias abcdx_latin
        fz len)
  have r: "reason (analyze_message registry_aliases service_down msg_abcdx) =
      registry_prefix @ name_li_yan"
    by (simp add: analyze_message_alias[OF fp abcdx_no_direct ps] result_def)
  have n: "\<not> contains name_ko_en (registry_prefix @ name_li_yan)"
    by (simp add: registry_prefix_def name_li_yan_def name_ko_en_def)
  have m: "(ascii ''abcdz'', name_ko_en) \<in> set (pseudonyms registry_aliases)"
    by (simp add: registry_aliases_def)
  show ?thesis
    using r n m abcdx_not_stop_listed abcdx_no_alias
    by (simp add: abcdx_tokens abcdx_normalize abcdx_latin alias_projections abcdx_ratios len)
qed

section \<open>The classification by the language model\<close>

lemma token_stage_none: "token_stage answers n ts = None"
  by (induction ts arbitrary: n) (auto split: llm_outcome.splits option.splits)

lemma early_none_matched:
  "early_result ag service m = None \<Longrightarrow>
     match_fios (found_fios (alias_answer service)) (inoagents ag) = []"
  by (auto simp: early_result_def Let_def split: option.splits if_splits)

lemma list_ex_bex: "list_ex P xs \<longleftrightarrow> (\<exists>x\<in>set xs. P x)"
  by (simp add: list_ex_iff)

text \<open>
  Claim C3. Whenever the request for the classification fails, \<open>analyze_message\<close> returns
  the result of the local word lists: CATEGORY_A when a threat word occurs in the normalised
  text, else CATEGORY_B when a rude word occurs, else CLEAN; the result is never the ERROR
  result and the failure does not reach the caller.
\<close>

theorem classification_failure_falls_back:
  assumes "early_result ag service m = None"
    and "classify_answer service = Raises"
  shows "analyze_message ag service m = local_fallback (normalize m) (extract_urls m) \<and>
         category (analyze_message ag service m) \<noteq> ERROR \<and>
         ((\<exists>w\<in>set threat_words. contains w (normalize m)) \<longrightarrow>
            category (analyze_message ag service m) = CATEGORY_A) \<and>
         (\<not> (\<exists>w\<in>set threat_words. contains w (normalize m)) \<and>
          (\<exists>w\<in>set rude_words. contains w (normalize m)) \<longrightarrow>
            category (analyze_message ag service m) = CATEGORY_B) \<and>
         (\<not> (\<exists>w\<in>set threat_words. contains w (normalize m)) \<and>
          \<not> (\<exists>w\<in>set rude_words. contains w (normalize m)) \<longrightarrow>
            category (analyze_message ag service m) = CLEAN)"
proof -
  have eq: "analyze_message ag service m = local_fallback (normalize m) (extract_urls m)"
    using assms by (simp add: analyze_message_def classify_stage_def)
  show ?thesis
    unfolding eq by (simp add: local_fallback_def list_ex_bex result_def)
qed

text \<open>
  Claim C2. If the answer of the classification is read as CATEGORY_C while the message
  has no local evidence (no registry name matched through the alias request, which holds
  whenever the classification is reached, no candidate pair of words and no token that is
  a known alias), the final category is CLEAN.
\<close>

theorem registry_verdict_without_evidence_is_clean:
  assumes "early_result ag service m = None"
    and "classify_answer service = Text response"
    and "parse_category response = CATEGORY_C"
    and "local_candidates m = []"
    and "\<not> has_pseudonym_token (pseudonyms ag) m"
  shows "match_fios (found_fios (alias_answer service)) (inoagents ag) = [] \<and>
         category (analyze_message ag service m) = CLEAN \<and>
         reason (analyze_message ag service m) = reason_complies"
proof -
  note matched = early_none_matched[OF assms(1)]
  have "analyze_message ag service m = result CLEAN reason_complies (extract_urls m)"
    using assms matched
    by (simp add: analyze_message_def classify_stage_def classify_text_def Let_def)
  with matched show ?thesis by (simp add: result_def)
qed

lemmas pair_eval = name_pair_here_def local_candidates_def Let_def cyr_letter_def is_space_def

lemma pseudonym_stage_empty: "pseudonym_stage [] ts = None"
  by (induction ts) auto

lemma early_result_noneI:
  assumes "fast_path token_blacklist (extract_urls m) m = None"
    and "direct_stage (inoagents ag) m = None"
    and "pseudonym_stage (pseudonyms ag) (simple_tokens m) = None"
    and "local_candidates m = []"
    and "found_fios (alias_answer service) = []"
    and "fast_path token_blacklist_short (extract_urls m) m = None"
  shows "early_result ag service m = None"
  using assms by (simp add: early_result_def Let_def token_stage_none)

lemma no_direct_hit:
  assumes "split_ws name = t0 # t1 # more_tokens"
    and "matched_tokens (t0 # t1 # more_tokens) m < 2"
  shows "\<not> direct_hit m name"
  using assms by (simp add: direct_hit_def)

lemma you_agent_early: "early_result registry_one service_says_c msg_you_agent = None"
proof -
  have t: "simple_tokens msg_you_agent = [[1090, 1099], [1080, 1085, 1086, 1072, 1075, 1077, 1085, 1090]]"
    by (simp add: msg_you_agent_def tok_eval)
  have l: "lower msg_you_agent = msg_you_agent"
    by (simp add: msg_you_agent_def lower_def lower_cp_def)
  have ts: "msg_tokens_set msg_you_agent = [[1090, 1099], [1080, 1085, 1086, 1072, 1075, 1077, 1085, 1090]]"
    unfolding msg_tokens_set_def l using t by (simp add: simple_tokens_def norm_eval)
  have mt: "matched_tokens [[1083, 1080], [1103, 1085]] msg_you_agent = 0"
    unfolding matched_tokens_def ts by simp
  have "\<not> direct_hit msg_you_agent name_li_yan"
    by (rule no_direct_hit[OF split_li_yan]) (simp add: mt)
  then have d: "direct_stage (inoagents registry_one) msg_you_agent = None"
    by (simp add: registry_one_def)
  have c: "local_candidates msg_you_agent = []"
  proof -
    have np: "name_pairs msg_you_agent = [msg_you_agent]"
      by (simp add: msg_you_agent_def pair_eval)
    have n: "normalize msg_you_agent = msg_you_agent"
      by (simp add: msg_you_agent_def norm_eval)
    have sp: "split_ws msg_you_agent = [[1090, 1099], [1080, 1085, 1086, 1072, 1075, 1077, 1085, 1090]]"
      by (simp add: msg_you_agent_def split_ws_def runs_def is_space_def)
    show ?thesis by (simp add: local_candidates_def np n sp pronouns_def)
  qed
  have ps: "pseudonyms registry_one = []" by (simp add: registry_one_def)
  show ?thesis
    by (intro early_result_noneI fast_path_many)
       (simp_all add: t d c ps service_says_c_def pseudonym_stage_empty found_fios_def)
qed

theorem registry_verdict_without_evidence_is_clean_witness:
  "category (analyze_message registry_one service_says_c msg_you_agent) = CLEAN \<and>
   reason (analyze_message registry_one service_says_c msg_you_agent) = reason_complies"
proof -
  have 2: "classify_answer service_says_c = Text (ascii ''CATEGORY_C'')"
    by (simp add: service_says_c_def)
  have 3: "parse_category (ascii ''CATEGORY_C'') = CATEGORY_C"
    by (simp add: parse_category_def ascii_def)
  have 4: "local_candidates msg_you_agent = []"
  proof -
    have np: "name_pairs msg_you_agent = [msg_you_agent]"
      by (simp add: msg_you_agent_def pair_eval)
    have n: "normalize msg_you_agent = msg_you_agent"
      by (simp add: msg_you_agent_def norm_eval)
    have sp: "split_ws msg_you_agent = [[1090, 1099], [1080, 1085, 1086, 1072, 1075, 1077, 1085, 1090]]"
      by (simp add: msg_you_agent_def split_ws_def runs_def is_space_def)
    show ?thesis by (simp add: local_candidates_def np n sp pronouns_def)
  qed
  have 5: "\<not> has_pseudonym_token (pseudonyms registry_one) msg_you_agent"
    by (simp add: has_pseudonym_token_def registry_one_def list_ex_iff)
  show ?thesis
    using registry_verdict_without_evidence_is_clean [OF you_agent_early 2 3 4 5] by simp
qed

lemma you_fool_early: "early_result registry_one service_down msg_you_fool = None"
proof -
  have t: "simple_tokens msg_you_fool = [[1090, 1099], [1076, 1091, 1088, 1072, 1082]]"
    by (simp add: msg_you_fool_def tok_eval)
  have l: "lower msg_you_fool = msg_you_fool"
    by (simp add: msg_you_fool_def lower_def lower_cp_def)
  have ts: "msg_tokens_set msg_you_fool = [[1090, 1099], [1076, 1091, 1088, 1072, 1082]]"
    unfolding msg_tokens_set_def l using t by (simp add: simple_tokens_def norm_eval)
  have mt: "matched_tokens [[1083, 1080], [1103, 1085]] msg_you_fool = 0"
    unfolding matched_tokens_def ts by simp
  have "\<not> direct_hit msg_you_fool name_li_yan"
    by (rule no_direct_hit[OF split_li_yan]) (simp add: mt)
  then have d: "direct_stage (inoagents registry_one) msg_you_fool = None"
    by (simp add: registry_one_def)
  have c: "local_candidates msg_you_fool = []"
  proof -
    have np: "name_pairs msg_you_fool = [msg_you_fool]"
      by (simp add: msg_you_fool_def pair_eval)
    have n: "normalize msg_you_fool = msg_you_fool"
      by (simp add: msg_you_fool_def norm_eval)
    have sp: "split_ws msg_you_fool = [[1090, 1099], [1076, 1091, 1088, 1072, 1082]]"
      by (simp add: msg_you_fool_def split_ws_def runs_def is_space_def)
    show ?thesis by (simp add: local_candidates_def np n sp pronouns_def)
  qed
  have ps: "pseudonyms registry_one = []" by (simp add: registry_one_def)
  show ?thesis
    by (intro early_result_noneI fast_path_many)
       (simp_all add: t d c ps service_down_def pseudonym_stage_empty found_fios_def)
qed

lemma threat_early: "early_result registry_one service_down msg_threat = None"
proof -
  have t: "simple_tokens msg_threat = [msg_threat]"
    by (simp add: msg_threat_def tok_eval)
  have n: "normalize msg_threat = msg_threat"
    by (simp add: msg_threat_def norm_eval)
  have l: "lower msg_threat = msg_threat"
    by (simp add: msg_threat_def lower_def lower_cp_def)
  have ts: "msg_tokens_set msg_threat = [msg_threat]"
    using t by (simp add: msg_tokens_set_def l simple_tokens_def n)
  have mt: "matched_tokens [[1083, 1080], [1103, 1085]] msg_threat = 0"
    unfolding matched_tokens_def ts by (simp add: msg_threat_def)
  have "\<not> direct_hit msg_threat name_li_yan"
    by (rule no_direct_hit[OF split_li_yan]) (simp add: mt)
  then have d: "direct_stage (inoagents registry_one) msg_threat = None"
    by (simp add: registry_one_def)
  have c: "local_candidates msg_threat = []"
    by (simp add: msg_threat_def pair_eval)
  have b: "msg_threat \<notin> set token_blacklist" "msg_threat \<notin> set token_blacklist_short"
    "3 \<le> length msg_threat"
    by (simp_all add: msg_threat_def token_blacklist_def token_blacklist_short_def)
  have f: "fast_path token_blacklist (extract_urls msg_threat) msg_threat = None"
    "fast_path token_blacklist_short (extract_urls msg_threat) msg_threat = None"
    by (intro fast_path_long_token[of msg_threat]; simp add: t n b)+
  have ps: "pseudonyms registry_one = []" by (simp add: registry_one_def)
  show ?thesis
    by (intro early_result_noneI f)
       (simp_all add: d c ps service_down_def pseudonym_stage_empty found_fios_def)
qed

theorem classification_failure_falls_back_witness:
  "category (analyze_message registry_one service_down msg_threat) = CATEGORY_A \<and>
   category (analyze_message registry_one service_down msg_you_fool) = CATEGORY_B"
proof -
  have r: "classify_answer service_down = Raises" by (simp add: service_down_def)
  have n: "normalize msg_threat = msg_threat" "normalize msg_you_fool = msg_you_fool"
    by (simp_all add: msg_threat_def msg_you_fool_def norm_eval)
  have a: "\<exists>w\<in>set threat_words. contains w msg_threat"
    by (simp add: threat_words_def msg_threat_def)
  have b: "\<not> (\<exists>w\<in>set threat_words. contains w msg_you_fool)"
    "\<exists>w\<in>set rude_words. contains w msg_you_fool"
    by (simp_all add: threat_words_def rude_words_def msg_you_fool_def)
  from classification_failure_falls_back [OF threat_early r, unfolded n] a
  have 1: "category (analyze_message registry_one service_down msg_threat) = CATEGORY_A"
    by blast
  from classification_failure_falls_back [OF you_fool_early r, unfolded n] b
  have 2: "category (analyze_message registry_one service_down msg_you_fool) = CATEGORY_B"
    by blast
  show ?thesis using 1 2 by (rule conjI)
qed

section \<open>The similarity ratio\<close>

subsection \<open>The matched blocks fit into both strings\<close>








subsection \<open>A string against itself\<close>



















section \<open>Spam by similarity\<close>
















end
